theory Spec2Isabelle
  imports Main
begin

section \<open>Decoded payloads\<close>

text \<open>
  The values that \<^verbatim>\<open>onMessage\<close> receives are decoded JSON: a message event carries what
  \<^verbatim>\<open>parseJSON\<close> made of the frame, and a path is what \<^verbatim>\<open>buildPath\<close> returned (neither
  function is among the sources). Numbers are kept as integers, those a JSON number holds
  exactly: the client only ever tests a number for being zero (truthiness). Strings are
  lists of bytes, a character outside ASCII being its UTF-8 bytes.
\<close>

datatype jsval =
    JNull
  | JBool bool
  | JNum int
  | JStr string
  | JArr "jsval list"
  | JObj "(string \<times> jsval) list"

text \<open>\<^verbatim>\<open>!value\<close> of the source is \<open>\<not> truthy value\<close>.\<close>

fun truthy :: "jsval \<Rightarrow> bool" where
  "truthy JNull = False"
| "truthy (JBool b) = b"
| "truthy (JNum n) = (n \<noteq> 0)"
| "truthy (JStr s) = (s \<noteq> [])"
| "truthy (JArr xs) = True"
| "truthy (JObj kvs) = True"

text \<open>
  \<^verbatim>\<open>typeof value === "object" && "error" in value\<close>, together with the read of
  \<^verbatim>\<open>value.error\<close>: \<open>Some e\<close> when the value is an object with an \<^verbatim>\<open>error\<close> key.
  An array is an object too, but a decoded array has index keys only.
\<close>

fun error_field :: "jsval \<Rightarrow> jsval option" where
  "error_field (JObj kvs) = map_of kvs ''error''"
| "error_field v = None"

section \<open>The state of one \<^verbatim>\<open>createWSHooks\<close> instance\<close>

type_synonym listener = nat

datatype readyState = CONNECTING | OPEN | CLOSING | CLOSED

text \<open>
  Modelled from the spec: \<^verbatim>\<open>defer()\<close> of \<^verbatim>\<open>./lib\<close> is not among the sources. The
  pending-result handle it returns settles at most once: it resolves when the first
  value of the load cycle arrives, or rejects on a connection error.
\<close>

datatype promise = Pending | Resolved | Rejected string

definition resolve :: "promise \<Rightarrow> promise" where
  "resolve d = (if d = Pending then Resolved else d)"

definition reject :: "string \<Rightarrow> promise \<Rightarrow> promise" where
  "reject msg d = (if d = Pending then Rejected msg else d)"

text \<open>An entry of \<^verbatim>\<open>queryCache\<close>. The fields \<open>deferred\<close> and \<open>subscribe\<close> are
  references: each names the load cycle whose handle, or whose \<^verbatim>\<open>subscribe\<close>
  closure, the entry holds.\<close>

record query =
  deferred :: nat
  lazilyRefetch :: bool
  subscribe :: nat

text \<open>
  The closure variables of one run of \<^verbatim>\<open>load()\<close> past its early return:
  \<^verbatim>\<open>path\<close>, \<^verbatim>\<open>resolvedOpts.url\<close>, \<^verbatim>\<open>deferred\<close>, \<^verbatim>\<open>subscriptions\<close>,
  \<^verbatim>\<open>cleanupTimeoutId\<close> (undefined at first) and the outer \<^verbatim>\<open>ws\<close> of
  \<^verbatim>\<open>createRecoverableWebSocket\<close>, which is assigned once.
\<close>

record cycle =
  c_path :: string
  c_url :: string
  c_deferred :: promise
  subscriptions :: "listener list"
  cleanupTimeoutId :: "nat option"
  c_ws :: nat

text \<open>A browser \<^verbatim>\<open>WebSocket\<close> object made by \<^verbatim>\<open>recreate()\<close>: the load cycle whose
  handlers it carries, its URL, its ready state and the frames sent on it.\<close>

record socket =
  sock_owner :: nat
  sock_url :: string
  sock_state :: readyState
  sent :: "string list"

text \<open>A timer made by \<^verbatim>\<open>setTimeout\<close>: the reconnection attempt of the close handler
  of a socket, or the teardown check of a load cycle.\<close>

datatype callback = Reconnect nat | Cleanup nat

record timer =
  action :: callback
  delay :: nat
  pending :: bool

record state =
  valueCache :: "string \<rightharpoonup> jsval"
  queryCache :: "string \<rightharpoonup> query"
  cycles :: "cycle list"
  sockets :: "socket list"
  timers :: "timer list"
  notified :: "listener list"

definition init :: state where
  "init = \<lparr>valueCache = Map.empty, queryCache = Map.empty, cycles = [], sockets = [],
            timers = [], notified = []\<rparr>"

text \<open>The argument of \<^verbatim>\<open>createWSHooks\<close>: a value, or a function called at every
  fresh load (here it is given the number of the load cycle).\<close>

datatype opts = OptsValue string | OptsFn "nat \<Rightarrow> string"

fun resolvedOpts :: "opts \<Rightarrow> nat \<Rightarrow> string" where
  "resolvedOpts (OptsValue u) n = u"
| "resolvedOpts (OptsFn f) n = f n"

text \<open>What the host gives: the options, and the two built-in conversions used by the
  message of a read error. Both can throw: \<^verbatim>\<open>decodeURIComponent\<close> a URIError, the string
  conversion of the template literal a TypeError; \<open>None\<close> stands for the throw.\<close>

record host =
  h_opts :: opts
  decodeURIComponent :: "string \<Rightarrow> string option"
  toString :: "jsval \<Rightarrow> string option"

section \<open>Browser primitives\<close>

definition setTimeout :: "callback \<Rightarrow> nat \<Rightarrow> state \<Rightarrow> state" where
  "setTimeout cb ms s = s\<lparr>timers := timers s @ [\<lparr>action = cb, delay = ms, pending = True\<rparr>]\<rparr>"

definition clearTimeout :: "nat option \<Rightarrow> state \<Rightarrow> state" where
  "clearTimeout tid s =
     (case tid of
        None \<Rightarrow> s
      | Some t \<Rightarrow>
          if t < length (timers s)
          then s\<lparr>timers := (timers s)[t := (timers s ! t)\<lparr>pending := False\<rparr>]\<rparr>
          else s)"

text \<open>\<^verbatim>\<open>ws.close()\<close>: a socket that is connecting or open starts closing.\<close>

definition ws_close :: "nat \<Rightarrow> state \<Rightarrow> state" where
  "ws_close k s =
     (if k < length (sockets s) \<and> sock_state (sockets s ! k) \<in> {CONNECTING, OPEN}
      then s\<lparr>sockets := (sockets s)[k := (sockets s ! k)\<lparr>sock_state := CLOSING\<rparr>]\<rparr>
      else s)"

section \<open>\<^verbatim>\<open>createRecoverableWebSocket\<close>\<close>

text \<open>\<^verbatim>\<open>recreate()\<close>: a new socket carrying the handlers of load cycle \<open>c\<close>.\<close>

definition recreate :: "nat \<Rightarrow> state \<Rightarrow> state" where
  "recreate c s =
     s\<lparr>sockets := sockets s @
        [\<lparr>sock_owner = c, sock_url = c_url (cycles s ! c), sock_state = CONNECTING, sent = []\<rparr>]\<rparr>"

text \<open>The \<^verbatim>\<open>onClose\<close>, \<^verbatim>\<open>onError\<close> and \<^verbatim>\<open>onMessage\<close> callbacks that load cycle \<open>c\<close>
  passes to its connection.\<close>

definition onClose :: "nat \<Rightarrow> state \<Rightarrow> state" where
  "onClose c s =
     (let path = c_path (cycles s ! c) in
      case queryCache s path of
        None \<Rightarrow> s
      | Some query \<Rightarrow>
          s\<lparr>valueCache := (valueCache s)(path := None),
            queryCache := (queryCache s)(path \<mapsto> query\<lparr>lazilyRefetch := True\<rparr>)\<rparr>)"

definition onError :: "nat \<Rightarrow> state \<Rightarrow> state" where
  "onError c s =
     s\<lparr>cycles := (cycles s)[c := (cycles s ! c)
          \<lparr>c_deferred := reject ''Error connecting to websocket.'' (c_deferred (cycles s ! c))\<rparr>]\<rparr>"

definition onMessage :: "nat \<Rightarrow> jsval \<Rightarrow> state \<Rightarrow> state" where
  "onMessage c data s =
     s\<lparr>valueCache := (valueCache s)(c_path (cycles s ! c) \<mapsto> data),
       notified := notified s @ subscriptions (cycles s ! c),
       cycles := (cycles s)[c := (cycles s ! c)\<lparr>c_deferred := resolve (c_deferred (cycles s ! c))\<rparr>]\<rparr>"

text \<open>The four listeners that \<^verbatim>\<open>recreate()\<close> adds to socket \<open>k\<close>.\<close>

definition on_open :: "nat \<Rightarrow> state \<Rightarrow> state" where
  "on_open k s =
     s\<lparr>sockets := (sockets s)[k := (sockets s ! k)
          \<lparr>sent := sent (sockets s ! k) @ [c_path (cycles s ! sock_owner (sockets s ! k))]\<rparr>]\<rparr>"

definition on_message :: "nat \<Rightarrow> jsval \<Rightarrow> state \<Rightarrow> state" where
  "on_message k parsed s = onMessage (sock_owner (sockets s ! k)) parsed s"

definition on_error :: "nat \<Rightarrow> state \<Rightarrow> state" where
  "on_error k s = onError (sock_owner (sockets s ! k)) s"

definition on_close :: "nat \<Rightarrow> nat \<Rightarrow> state \<Rightarrow> state" where
  "on_close k code s =
     (if code = 1006 then setTimeout (Reconnect k) 1000 s
      else onClose (sock_owner (sockets s ! k)) s)"

text \<open>The callback of the timer set by the close handler of socket \<open>k\<close>.\<close>

definition reconnect_timeout :: "nat \<Rightarrow> state \<Rightarrow> state" where
  "reconnect_timeout k s =
     (if sock_state (sockets s ! k) = CLOSED then recreate (sock_owner (sockets s ! k)) s else s)"

section \<open>\<^verbatim>\<open>wsQuery\<close>\<close>

text \<open>The part of \<^verbatim>\<open>load()\<close> after the early return and the reset of the flag.\<close>

definition load_fresh :: "opts \<Rightarrow> string \<Rightarrow> state \<Rightarrow> state" where
  "load_fresh os path s =
     (let c = length (cycles s);
          url = resolvedOpts os c;
          s1 = s\<lparr>cycles := cycles s @
                 [\<lparr>c_path = path, c_url = url, c_deferred = Pending, subscriptions = [],
                   cleanupTimeoutId = None, c_ws = length (sockets s)\<rparr>]\<rparr>;
          s2 = recreate c s1
      in s2\<lparr>queryCache := (queryCache s2)(path \<mapsto>
              \<lparr>deferred = c, lazilyRefetch = False, subscribe = c\<rparr>)\<rparr>)"

definition load :: "opts \<Rightarrow> string \<Rightarrow> state \<Rightarrow> state" where
  "load os path s =
     (case queryCache s path of
        None \<Rightarrow> load_fresh os path s
      | Some query \<Rightarrow>
          if \<not> lazilyRefetch query then s
          else load_fresh os path
                 (s\<lparr>queryCache := (queryCache s)(path \<mapsto> query\<lparr>lazilyRefetch := False\<rparr>)\<rparr>))"

text \<open>The \<^verbatim>\<open>subscribe\<close> closure of load cycle \<open>c\<close>, and the function it returns.\<close>

definition cycle_subscribe :: "nat \<Rightarrow> listener \<Rightarrow> state \<Rightarrow> state" where
  "cycle_subscribe c onStoreChanged s =
     s\<lparr>cycles := (cycles s)[c := (cycles s ! c)
          \<lparr>subscriptions := subscriptions (cycles s ! c) @ [onStoreChanged]\<rparr>]\<rparr>"

text \<open>\<^verbatim>\<open>subscriptions.splice(subscriptions.indexOf(l), 1)\<close>: the first occurrence goes;
  when there is none the index is -1 and the splice takes the last element.\<close>

definition splice_indexOf :: "listener \<Rightarrow> listener list \<Rightarrow> listener list" where
  "splice_indexOf l subs = (if l \<in> set subs then remove1 l subs else butlast subs)"

definition unsubscribe :: "nat \<Rightarrow> listener \<Rightarrow> state \<Rightarrow> state" where
  "unsubscribe c onStoreChanged s =
     (let s1 = clearTimeout (cleanupTimeoutId (cycles s ! c)) s;
          s2 = s1\<lparr>cycles := (cycles s1)[c := (cycles s1 ! c)
                  \<lparr>subscriptions := splice_indexOf onStoreChanged (subscriptions (cycles s1 ! c))\<rparr>]\<rparr>;
          t = length (timers s2);
          s3 = setTimeout (Cleanup c) 9999 s2
      in s3\<lparr>cycles := (cycles s3)[c := (cycles s3 ! c)\<lparr>cleanupTimeoutId := Some t\<rparr>]\<rparr>)"

definition cleanup_timeout :: "nat \<Rightarrow> state \<Rightarrow> state" where
  "cleanup_timeout c s =
     (if subscriptions (cycles s ! c) = [] then ws_close (c_ws (cycles s ! c)) s else s)"

text \<open>What \<^verbatim>\<open>read\<close> and \<^verbatim>\<open>subscribe\<close> throw: the usage error, the promise of a load
  cycle (the suspension signal), the read error, and what the two conversions inside the
  message of the read error throw, the URIError of the decoding and the TypeError of the
  string conversion.\<close>

datatype thrown =
    UsageError string
  | Suspend nat
  | ReadError string
  | URIError
  | TypeError

text \<open>The tail of \<^verbatim>\<open>read\<close>, from the lookup in \<^verbatim>\<open>valueCache\<close> on: \<open>value\<close> is
  what the lookup gave and \<open>query\<close> the entry that \<^verbatim>\<open>read\<close> fetched before any
  reload. \<open>read_empty\<close> is the branch of \<^verbatim>\<open>!value\<close>.\<close>

definition read_empty :: "bool \<Rightarrow> query \<Rightarrow> thrown + jsval" where
  "read_empty suspend query = (if suspend then Inl (Suspend (deferred query)) else Inr JNull)"

definition read_value :: "host \<Rightarrow> string \<Rightarrow> bool \<Rightarrow> query \<Rightarrow> jsval option \<Rightarrow> thrown + jsval" where
  "read_value h path suspend query value =
     (case value of
        None \<Rightarrow> read_empty suspend query
      | Some v \<Rightarrow>
          (if \<not> truthy v then read_empty suspend query
           else (case error_field v of
                   Some e \<Rightarrow>
                     (case decodeURIComponent h path of
                        None \<Rightarrow> Inl URIError
                      | Some p \<Rightarrow>
                          (case toString h e of
                             None \<Rightarrow> Inl TypeError
                           | Some detail \<Rightarrow>
                               Inl (ReadError (''Error reading \"'' @ p @ ''\" - ['' @ detail @ '']''))))
                 | None \<Rightarrow> Inr v)))"

definition read :: "host \<Rightarrow> string \<Rightarrow> bool \<Rightarrow> state \<Rightarrow> (thrown + jsval) \<times> state" where
  "read h path suspend s =
     (case queryCache s path of
        None \<Rightarrow> (Inl (UsageError (''invariant: call load() first for '' @ path)), s)
      | Some query \<Rightarrow>
          (let s' = (if lazilyRefetch query then load (h_opts h) path s else s)
           in (read_value h path suspend query (valueCache s' path), s')))"

text \<open>\<^verbatim>\<open>wsQuery(path).subscribe\<close>: the result names the unsubscribe closure by its
  load cycle and listener.\<close>

definition wsQuery_subscribe ::
  "string \<Rightarrow> listener \<Rightarrow> state \<Rightarrow> (thrown + nat \<times> listener) \<times> state" where
  "wsQuery_subscribe path onStoreChanged s =
     (case queryCache s path of
        None \<Rightarrow> (Inl (UsageError (''invariant: call load() first for '' @ path)), s)
      | Some query \<Rightarrow>
          (Inr (subscribe query, onStoreChanged), cycle_subscribe (subscribe query) onStoreChanged s))"

section \<open>\<^verbatim>\<open>clearQuery\<close>\<close>

definition clearQuery :: "string \<Rightarrow> state \<Rightarrow> state" where
  "clearQuery path s =
     (let s1 = s\<lparr>valueCache := (valueCache s)(path := None)\<rparr> in
      case queryCache s path of
        None \<Rightarrow> s1
      | Some query \<Rightarrow> s1\<lparr>queryCache := (queryCache s1)(path \<mapsto> query\<lparr>lazilyRefetch := True\<rparr>)\<rparr>)"

section \<open>Events\<close>

text \<open>
  The client runs on one thread: the state changes only when a public operation is called
  or when the browser delivers a socket event or fires a timer. The browser sets the
  ready state of a socket before it delivers the open or close event, and a timer that
  fires is no longer pending. Listeners are opaque: \<^verbatim>\<open>onMessage\<close> records which ones it
  called, and whatever a listener does is a later event.
\<close>

datatype event =
    Load string
  | Read string bool
  | Subscribe string listener
  | Unsubscribe nat listener
  | ClearQuery string
  | SockOpen nat
  | SockMessage nat jsval
  | SockError nat
  | SockClose nat nat
  | TimerFire nat

definition set_ready :: "nat \<Rightarrow> readyState \<Rightarrow> state \<Rightarrow> state" where
  "set_ready k r s = s\<lparr>sockets := (sockets s)[k := (sockets s ! k)\<lparr>sock_state := r\<rparr>]\<rparr>"

definition fire :: "nat \<Rightarrow> state \<Rightarrow> state" where
  "fire t s =
     (let s1 = s\<lparr>timers := (timers s)[t := (timers s ! t)\<lparr>pending := False\<rparr>]\<rparr> in
      case action (timers s ! t) of
        Reconnect k \<Rightarrow> reconnect_timeout k s1
      | Cleanup c \<Rightarrow> cleanup_timeout c s1)"

fun step :: "host \<Rightarrow> event \<Rightarrow> state \<Rightarrow> state" where
  "step h (Load path) s = load (h_opts h) path s"
| "step h (Read path suspend) s = snd (read h path suspend s)"
| "step h (Subscribe path l) s = snd (wsQuery_subscribe path l s)"
| "step h (Unsubscribe c l) s = unsubscribe c l s"
| "step h (ClearQuery path) s = clearQuery path s"
| "step h (SockOpen k) s = on_open k (set_ready k OPEN s)"
| "step h (SockMessage k parsed) s = on_message k parsed s"
| "step h (SockError k) s = on_error k s"
| "step h (SockClose k code) s = on_close k code (set_ready k CLOSED s)"
| "step h (TimerFire t) s = fire t s"

text \<open>
  When the browser can deliver an event: a socket opens once, from connecting; messages
  come on an open socket; a socket closes once; only a pending timer fires. The function
  returned by \<^verbatim>\<open>subscribe\<close> belongs to an existing load cycle.
\<close>

fun enabled :: "state \<Rightarrow> event \<Rightarrow> bool" where
  "enabled s (SockOpen k) = (k < length (sockets s) \<and> sock_state (sockets s ! k) = CONNECTING)"
| "enabled s (SockMessage k parsed) = (k < length (sockets s) \<and> sock_state (sockets s ! k) = OPEN)"
| "enabled s (SockError k) = (k < length (sockets s) \<and> sock_state (sockets s ! k) \<noteq> CLOSED)"
| "enabled s (SockClose k code) = (k < length (sockets s) \<and> sock_state (sockets s ! k) \<noteq> CLOSED)"
| "enabled s (TimerFire t) = (t < length (timers s) \<and> pending (timers s ! t))"
| "enabled s (Unsubscribe c l) = (c < length (cycles s))"
| "enabled s e = True"

fun exec :: "host \<Rightarrow> event list \<Rightarrow> state \<Rightarrow> state option" where
  "exec h [] s = Some s"
| "exec h (e # es) s = (if enabled s e then exec h es (step h e s) else None)"

section \<open>The built-in conversions\<close>

text \<open>
  \<^verbatim>\<open>decodeURIComponent\<close> of the language, on byte strings. A character other than
  \<^verbatim>\<open>%\<close> is kept. A \<^verbatim>\<open>%\<close> must be followed by two hexadecimal digits, which give an
  octet; an octet of 128 or more must start a well-formed UTF-8 sequence whose other octets
  are escaped too. Anything else is the URIError.
\<close>

definition hex_val :: "char \<Rightarrow> nat option" where
  "hex_val c =
     (let n = (of_char c :: nat) in
      if 48 \<le> n \<and> n \<le> 57 then Some (n - 48)
      else if 65 \<le> n \<and> n \<le> 70 then Some (n - 55)
      else if 97 \<le> n \<and> n \<le> 102 then Some (n - 87)
      else None)"

definition octet :: "string \<Rightarrow> nat option" where
  "octet cs =
     (case cs of
        a # b # rest \<Rightarrow>
          (case hex_val a of
             None \<Rightarrow> None
           | Some x \<Rightarrow> (case hex_val b of None \<Rightarrow> None | Some y \<Rightarrow> Some (16 * x + y)))
      | _ \<Rightarrow> None)"

fun continuation :: "nat \<Rightarrow> string \<Rightarrow> nat list option" where
  "continuation 0 cs = Some []"
| "continuation (Suc n) cs =
     (case cs of
        [] \<Rightarrow> None
      | c # cs' \<Rightarrow>
          if c \<noteq> CHR ''%'' then None
          else (case octet cs' of
                  None \<Rightarrow> None
                | Some b \<Rightarrow>
                    if 128 \<le> b \<and> b < 192
                    then map_option ((#) b) (continuation n (drop 2 cs'))
                    else None))"

definition utf8_length :: "nat \<Rightarrow> nat option" where
  "utf8_length b =
     (if 192 \<le> b \<and> b < 224 then Some 2
      else if 224 \<le> b \<and> b < 240 then Some 3
      else if 240 \<le> b \<and> b < 248 then Some 4
      else None)"

definition utf8_valid :: "nat \<Rightarrow> nat list \<Rightarrow> bool" where
  "utf8_valid b bs =
     (case bs of
        [] \<Rightarrow> False
      | b1 # _ \<Rightarrow>
          194 \<le> b \<and> b \<le> 244
        \<and> (b = 224 \<longrightarrow> 160 \<le> b1) \<and> (b = 237 \<longrightarrow> b1 < 160)
        \<and> (b = 240 \<longrightarrow> 144 \<le> b1) \<and> (b = 244 \<longrightarrow> b1 < 144))"

function js_decodeURIComponent :: "string \<Rightarrow> string option" where
  "js_decodeURIComponent [] = Some []"
| "js_decodeURIComponent (c # cs) =
     (if c \<noteq> CHR ''%'' then map_option ((#) c) (js_decodeURIComponent cs)
      else (case octet cs of
              None \<Rightarrow> None
            | Some b \<Rightarrow>
                if b < 128 then map_option ((#) (char_of b)) (js_decodeURIComponent (drop 2 cs))
                else (case utf8_length b of
                        None \<Rightarrow> None
                      | Some n \<Rightarrow>
                          (case continuation (n - 1) (drop 2 cs) of
                             None \<Rightarrow> None
                           | Some bs \<Rightarrow>
                               if utf8_valid b bs
                               then map_option ((@) (map char_of (b # bs)))
                                      (js_decodeURIComponent (drop (2 + 3 * length bs) cs))
                               else None))))"
  by pat_completeness auto
termination
  by (relation "measure length") auto

text \<open>
  The string conversion of a template literal, on decoded JSON. An object converts through
  \<^verbatim>\<open>Object.prototype.toString\<close>, unless it has a key \<^verbatim>\<open>toString\<close> of its own: that value is
  not a function, and the conversion throws the TypeError. An array joins the conversions of
  its elements with commas, null giving the empty string.
\<close>

function nat_digits :: "nat \<Rightarrow> string" where
  "nat_digits n =
     (if n < 10 then [char_of (48 + n)] else nat_digits (n div 10) @ [char_of (48 + n mod 10)])"
  by pat_completeness auto
termination
  by (relation "measure id") auto

declare nat_digits.simps [simp del]

fun join_comma :: "string list \<Rightarrow> string" where
  "join_comma [] = []"
| "join_comma [x] = x"
| "join_comma (x # y # ys) = x @ '','' @ join_comma (y # ys)"

fun those_strings :: "string option list \<Rightarrow> string list option" where
  "those_strings [] = Some []"
| "those_strings (None # xs) = None"
| "those_strings (Some x # xs) = map_option ((#) x) (those_strings xs)"

fun js_toString :: "jsval \<Rightarrow> string option" where
  "js_toString JNull = Some ''null''"
| "js_toString (JBool b) = Some (if b then ''true'' else ''false'')"
| "js_toString (JNum n) =
     Some (if n < 0 then ''-'' @ nat_digits (nat (- n)) else nat_digits (nat n))"
| "js_toString (JStr s) = Some s"
| "js_toString (JArr xs) =
     map_option join_comma
       (those_strings (map (\<lambda>x. if x = JNull then Some [] else js_toString x) xs))"
| "js_toString (JObj kvs) =
     (if ''toString'' \<in> set (map fst kvs) then None else Some ''[object Object]'')"

text \<open>The host of the concrete runs: a fixed URL and the two conversions above.\<close>

definition host0 :: host where
  "host0 = \<lparr>h_opts = OptsValue ''ws://localhost:3000'',
             decodeURIComponent = js_decodeURIComponent, toString = js_toString\<rparr>"

section \<open>Properties of states\<close>

text \<open>The path that the handlers of socket \<open>k\<close> see: the \<^verbatim>\<open>path\<close> of its load cycle.\<close>

definition sock_path :: "state \<Rightarrow> nat \<Rightarrow> string" where
  "sock_path s k = c_path (cycles s ! sock_owner (sockets s ! k))"

text \<open>
  In a state reached from \<open>init\<close> every reference points at an object that exists: the
  handle of a query entry, the load cycle of a socket, the socket of a reconnection timer.
  A reconnection timer that is still pending belongs to a socket that is closed, and every
  load cycle has a query entry for its path (entries are never removed).
\<close>

definition well_formed :: "state \<Rightarrow> bool" where
  "well_formed s \<longleftrightarrow>
     (\<forall>p q. queryCache s p = Some q \<longrightarrow> deferred q < length (cycles s))
   \<and> (\<forall>k < length (sockets s). sock_owner (sockets s ! k) < length (cycles s))
   \<and> (\<forall>t < length (timers s). \<forall>k. action (timers s ! t) = Reconnect k \<longrightarrow>
         k < length (sockets s) \<and> (pending (timers s ! t) \<longrightarrow> sock_state (sockets s ! k) = CLOSED))
   \<and> (\<forall>c < length (cycles s). queryCache s (c_path (cycles s ! c)) \<noteq> None)"

text \<open>Stale implies cleared: a query entry flagged \<open>lazilyRefetch\<close> has no cached value.\<close>

definition stale_implies_cleared :: "state \<Rightarrow> bool" where
  "stale_implies_cleared s \<longleftrightarrow>
     (\<forall>p q. queryCache s p = Some q \<longrightarrow> lazilyRefetch q \<longrightarrow> valueCache s p = None)"

text \<open>
  Connections of a path that are not finished: a socket of the path that is not closed, and
  a pending reconnection timer of a socket of the path (the socket it will create). A path
  is stale when it has no query entry or its entry is flagged \<open>lazilyRefetch\<close>: the next
  \<^verbatim>\<open>load()\<close> will open a connection.
\<close>

definition live_socket :: "state \<Rightarrow> string \<Rightarrow> nat \<Rightarrow> bool" where
  "live_socket s p k \<longleftrightarrow>
     k < length (sockets s) \<and> sock_state (sockets s ! k) \<noteq> CLOSED \<and> sock_path s k = p"

definition live_timer :: "state \<Rightarrow> string \<Rightarrow> nat \<Rightarrow> bool" where
  "live_timer s p t \<longleftrightarrow>
     t < length (timers s) \<and> pending (timers s ! t) \<and>
     (\<exists>k. action (timers s ! t) = Reconnect k \<and> sock_path s k = p)"

definition stale :: "state \<Rightarrow> string \<Rightarrow> bool" where
  "stale s p = (case queryCache s p of None \<Rightarrow> True | Some q \<Rightarrow> lazilyRefetch q)"

definition one_connection :: "state \<Rightarrow> bool" where
  "one_connection s \<longleftrightarrow>
     (\<forall>p. (\<forall>k k'. live_socket s p k \<longrightarrow> live_socket s p k' \<longrightarrow> k = k')
        \<and> (\<forall>t t'. live_timer s p t \<longrightarrow> live_timer s p t' \<longrightarrow> t = t')
        \<and> (\<forall>k t. live_socket s p k \<longrightarrow> \<not> live_timer s p t)
        \<and> (stale s p \<longrightarrow> (\<forall>k. \<not> live_socket s p k) \<and> (\<forall>t. \<not> live_timer s p t)))"

section \<open>Concrete runs\<close>

text \<open>The state after a load of \<^verbatim>\<open>/a\<close>, the opening of its socket and one message.\<close>

definition after_message :: "jsval \<Rightarrow> state" where
  "after_message v =
     step host0 (SockMessage 0 v) (step host0 (SockOpen 0) (step host0 (Load ''/a'') init))"

text \<open>A load of \<^verbatim>\<open>/a\<close> and the opening of its socket.\<close>

definition opened :: state where
  "opened = step host0 (SockOpen 0) (step host0 (Load ''/a'') init)"

text \<open>A load, the opening, a message, then the socket closes with code 1006.\<close>

definition closed_1006 :: state where
  "closed_1006 = step host0 (SockClose 0 1006) (after_message (JNum 3))"

text \<open>A load of \<^verbatim>\<open>/a\<close> followed by \<^verbatim>\<open>clearQuery\<close>.\<close>

definition cleared :: state where
  "cleared = step host0 (ClearQuery ''/a'') (step host0 (Load ''/a'') init)"

text \<open>A load, the opening of the socket, \<^verbatim>\<open>clearQuery\<close>, then a message on the socket
  that is still open.\<close>

definition message_after_clear :: state where
  "message_after_clear =
     step host0 (SockMessage 0 (JNum 1)) (step host0 (ClearQuery ''/a'')
       (step host0 (SockOpen 0) (step host0 (Load ''/a'') init)))"

text \<open>One listener subscribes, unsubscribes, and another subscribes before the timer
  fires.\<close>

definition subscribed :: state where
  "subscribed = step host0 (Subscribe ''/a'' 7) opened"



text \<open>A closure with code 1006 followed by the reconnection; and a load after
  \<^verbatim>\<open>clearQuery\<close>, with both sockets open.\<close>

definition reconnected :: state where
  "reconnected = step host0 (TimerFire 0) closed_1006"

definition two_connections :: state where
  "two_connections = step host0 (SockOpen 1) (step host0 (Load ''/a'') (step host0 (ClearQuery ''/a'') opened))"

text \<open>An error payload for a path that \<^verbatim>\<open>decodeURIComponent\<close> rejects.\<close>

definition error_at_bad_path :: state where
  "error_at_bad_path =
     step host0 (SockMessage 0 (JObj [(''error'', JStr ''boom'')]))
       (step host0 (SockOpen 0) (step host0 (Load ''/%'') init))"

text \<open>A closure with code 1006, then \<^verbatim>\<open>clearQuery\<close> and a load whose socket opens before the
  reconnection timer fires; and the state after the timer has fired.\<close>

definition reloaded_before_retry :: state where
  "reloaded_before_retry =
     step host0 (SockOpen 1) (step host0 (Load ''/a'') (step host0 (ClearQuery ''/a'')
       (step host0 (SockClose 0 1006) opened)))"


text \<open>A subscriber, a closure with code 1006 and the reconnection; then the subscriber leaves
  and the teardown timer fires.\<close>

definition torn_down_after_reconnection :: state where
  "torn_down_after_reconnection =
     step host0 (TimerFire 1) (step host0 (Unsubscribe 0 7) (step host0 (SockOpen 1)
       (step host0 (TimerFire 0) (step host0 (SockClose 0 1006) subscribed))))"

section \<open>Unfolding the operations\<close>

lemmas op_defs = init_def load_def load_fresh_def recreate_def set_ready_def on_open_def
  on_message_def onMessage_def on_error_def onError_def on_close_def onClose_def setTimeout_def
  clearTimeout_def ws_close_def reconnect_timeout_def cleanup_timeout_def cycle_subscribe_def
  unsubscribe_def splice_indexOf_def read_def read_value_def read_empty_def
  wsQuery_subscribe_def clearQuery_def fire_def resolve_def reject_def host0_def Let_def

lemma valueCache_load: "valueCache (load os path s) = valueCache s"
  by (simp add: load_def load_fresh_def recreate_def Let_def split: option.splits)

lemma queryCache_load_other: "p \<noteq> path \<Longrightarrow> queryCache (load os path s) p = queryCache s p"
  by (simp add: load_def load_fresh_def recreate_def Let_def split: option.splits)

lemma queryCache_load_fresh:
  "queryCache (load_fresh os path s) path =
     Some \<lparr>deferred = length (cycles s), lazilyRefetch = False, subscribe = length (cycles s)\<rparr>"
  by (simp add: load_fresh_def recreate_def Let_def)

lemma load_idem: "load os path (load os path s) = load os path s"
proof (cases "queryCache s path")
  case None
  then have "load os path s = load_fresh os path s"
    by (simp add: load_def)
  then show ?thesis
    using queryCache_load_fresh [of os path s] by (simp add: load_def)
next
  case (Some query)
  show ?thesis
  proof (cases "lazilyRefetch query")
    case False
    with Some show ?thesis by (simp add: load_def)
  next
    case True
    let ?s1 = "s\<lparr>queryCache := (queryCache s)(path \<mapsto> query\<lparr>lazilyRefetch := False\<rparr>)\<rparr>"
    from Some True have "load os path s = load_fresh os path ?s1"
      by (simp add: load_def)
    then show ?thesis
      using queryCache_load_fresh [of os path ?s1] by (simp add: load_def)
  qed
qed

section \<open>Reachable states\<close>

text \<open>A state is reachable when \<open>exec h es init = Some s\<close> for some list of events
  \<open>es\<close>. Every reachable state is well formed.\<close>

lemma exec_append:
  "exec h (es @ es') s = (case exec h es s of None \<Rightarrow> None | Some s' \<Rightarrow> exec h es' s')"
  by (induction es arbitrary: s) auto

lemma exec_snoc:
  "exec h (es @ [e]) s = Some s' \<longleftrightarrow>
     (\<exists>s1. exec h es s = Some s1 \<and> enabled s1 e \<and> s' = step h e s1)"
  by (auto simp: exec_append split: option.splits)

lemma c_path_nth_update:
  "c_path v = c_path (cs ! i) \<Longrightarrow> c_path (cs[i := v] ! c) = c_path (cs ! c)"
  by (cases "i = c"; cases "i < length cs"; simp add: list_update_beyond not_less)

lemma sock_owner_nth_update:
  "sock_owner v = sock_owner (ws ! i) \<Longrightarrow> sock_owner (ws[i := v] ! k) = sock_owner (ws ! k)"
  by (cases "i = k"; cases "i < length ws"; simp add: list_update_beyond not_less)

lemma action_nth_update:
  "action v = action (ts ! i) \<Longrightarrow> action (ts[i := v] ! t) = action (ts ! t)"
  by (cases "i = t"; cases "i < length ts"; simp add: list_update_beyond not_less)

lemma well_formed_init: "well_formed init"
  by (simp add: well_formed_def init_def)

lemma well_formed_load: "well_formed s \<Longrightarrow> well_formed (load os path s)"
  unfolding well_formed_def
  by (auto simp: load_def load_fresh_def recreate_def Let_def nth_append less_Suc_eq
           split: option.splits if_splits)

lemma well_formed_step:
  assumes "well_formed s" and "enabled s e"
  shows "well_formed (step h e s)"
proof (cases e)
  case (Load p)
  with assms show ?thesis by (simp add: well_formed_load)
next
  case (Read p b)
  with assms show ?thesis
    by (simp add: read_def well_formed_load Let_def split: option.splits)
next
  case (Subscribe p l)
  with assms show ?thesis
    by (auto simp: wsQuery_subscribe_def cycle_subscribe_def well_formed_def c_path_nth_update
             split: option.splits)
next
  case (Unsubscribe c l)
  with assms show ?thesis
    unfolding well_formed_def
    by (auto simp: unsubscribe_def clearTimeout_def setTimeout_def Let_def nth_append
                   nth_list_update c_path_nth_update split: option.splits if_splits)
next
  case (ClearQuery p)
  with assms show ?thesis
    unfolding well_formed_def
    by (auto simp: clearQuery_def Let_def split: option.splits if_splits)
next
  case (SockOpen k)
  with assms show ?thesis
    unfolding well_formed_def
    by (auto simp: on_open_def set_ready_def nth_list_update)
next
  case (SockMessage k v)
  with assms show ?thesis
    unfolding well_formed_def
    by (auto simp: on_message_def onMessage_def c_path_nth_update)
next
  case (SockError k)
  with assms show ?thesis
    unfolding well_formed_def
    by (auto simp: on_error_def onError_def c_path_nth_update)
next
  case (SockClose k code)
  with assms show ?thesis
    unfolding well_formed_def
    by (auto simp: on_close_def onClose_def set_ready_def setTimeout_def Let_def nth_append
                   nth_list_update split: option.splits if_splits)
next
  case (TimerFire t)
  with assms show ?thesis
    unfolding well_formed_def
    by (auto simp: fire_def reconnect_timeout_def cleanup_timeout_def recreate_def ws_close_def
                   Let_def nth_append nth_list_update less_Suc_eq
             split: callback.splits option.splits if_splits)
qed

lemma well_formed_exec: "exec h es init = Some s \<Longrightarrow> well_formed s"
proof (induction es arbitrary: s rule: rev_induct)
  case Nil
  then show ?case by (simp add: well_formed_init)
next
  case (snoc e es)
  then obtain s1 where "exec h es init = Some s1" "enabled s1 e" "s = step h e s1"
    by (auto simp: exec_snoc)
  with snoc.IH show ?case by (simp add: well_formed_step)
qed

section \<open>Claims about single operations\<close>

text \<open>
  C3. For a path whose query entry exists with \<open>lazilyRefetch = false\<close>, \<^verbatim>\<open>load()\<close> is a
  no-op: it returns the state it was given, so the query cache, the value cache and the
  subscriber lists are unchanged and no socket, load cycle or pending-result handle is
  added; calling it again changes nothing either.
\<close>

theorem load_noop_when_fresh:
  assumes "queryCache s path = Some query" and "\<not> lazilyRefetch query"
  shows "load os path s = s \<and> load os path (load os path s) = s"
  using assms by (simp add: load_def)

theorem load_noop_when_fresh_witness:
  "queryCache (load (OptsValue ''ws://h'') ''/a'' init) ''/a''
     = Some \<lparr>deferred = 0, lazilyRefetch = False, subscribe = 0\<rparr>
   \<and> \<not> lazilyRefetch \<lparr>deferred = 0, lazilyRefetch = False, subscribe = 0\<rparr>
   \<and> load (OptsValue ''ws://h'') ''/a'' (load (OptsValue ''ws://h'') ''/a'' init)
     = load (OptsValue ''ws://h'') ''/a'' init"
proof -
  have q: "queryCache (load (OptsValue ''ws://h'') ''/a'' init) ''/a''
     = Some \<lparr>deferred = 0, lazilyRefetch = False, subscribe = 0\<rparr>"
    by (simp add: op_defs)
  have f: "\<not> lazilyRefetch \<lparr>deferred = 0, lazilyRefetch = False, subscribe = 0\<rparr>"
    by simp
  show ?thesis
    using q f load_noop_when_fresh [OF q f, of "OptsValue ''ws://h''"] by simp
qed

text \<open>
  C6. For a path with no query entry, \<^verbatim>\<open>read()\<close> and \<^verbatim>\<open>subscribe()\<close> throw the usage
  error at once, whatever \<open>suspend\<close> is, and leave the whole state as it was: no entry is
  created, nothing is retried.
\<close>

theorem read_subscribe_before_load:
  assumes "queryCache s path = None"
  shows "read h path suspend s
           = (Inl (UsageError (''invariant: call load() first for '' @ path)), s)
       \<and> wsQuery_subscribe path l s
           = (Inl (UsageError (''invariant: call load() first for '' @ path)), s)"
  using assms by (simp add: read_def wsQuery_subscribe_def)

theorem read_subscribe_before_load_witness:
  "queryCache init ''/a'' = None
   \<and> read host0 ''/a'' True init
       = (Inl (UsageError ''invariant: call load() first for /a''), init)
   \<and> wsQuery_subscribe ''/a'' 5 init
       = (Inl (UsageError ''invariant: call load() first for /a''), init)"
proof -
  have q: "queryCache init ''/a'' = None"
    by (simp add: init_def)
  show ?thesis
    using q read_subscribe_before_load [OF q, of host0 True 5] by simp
qed

lemma after_message_exec:
  "exec host0 [Load ''/a'', SockOpen 0, SockMessage 0 v] init = Some (after_message v)"
  by (simp add: after_message_def op_defs)

lemma after_message_caches:
  "queryCache (after_message v) ''/a'' = Some \<lparr>deferred = 0, lazilyRefetch = False, subscribe = 0\<rparr>"
  "valueCache (after_message v) ''/a'' = Some v"
  by (simp_all add: after_message_def op_defs)

text \<open>
  C7, as the spec has it, fails for a path that \<^verbatim>\<open>decodeURIComponent\<close> rejects: building
  the message throws the URIError of the decoding, which carries neither the path nor the
  error detail.
\<close>

theorem read_error_payload_undecodable_path:
  "exec host0 [Load ''/%'', SockOpen 0, SockMessage 0 (JObj [(''error'', JStr ''boom'')])] init
     = Some error_at_bad_path
   \<and> valueCache error_at_bad_path ''/%'' = Some (JObj [(''error'', JStr ''boom'')])
   \<and> read host0 ''/%'' True error_at_bad_path = (Inl URIError, error_at_bad_path)"
  by (simp add: error_at_bad_path_def octet_def op_defs)

text \<open>
  C7, amended. When the cached value of a path is an object with an \<^verbatim>\<open>error\<close> field,
  \<^verbatim>\<open>read()\<close> throws and never returns the payload. What it throws is decided while the
  message is built: the URIError when \<^verbatim>\<open>decodeURIComponent\<close> rejects the path; else the
  TypeError when the error detail has no string conversion; else the read error with the
  message \<^verbatim>\<open>Error reading "<decoded path>" - [<error detail>]\<close>. For every other truthy
  cached value \<^verbatim>\<open>read()\<close> returns the value.
\<close>

theorem read_error_payload:
  assumes "queryCache s path = Some query" and "valueCache s path = Some v" and "truthy v"
  shows "(error_field v = None \<longrightarrow> fst (read h path suspend s) = Inr v)
       \<and> (\<forall>e. error_field v = Some e \<longrightarrow>
            fst (read h path suspend s) =
              (case decodeURIComponent h path of
                 None \<Rightarrow> Inl URIError
               | Some p \<Rightarrow>
                   (case toString h e of
                      None \<Rightarrow> Inl TypeError
                    | Some detail \<Rightarrow>
                        Inl (ReadError (''Error reading \"'' @ p @ ''\" - ['' @ detail @ '']'')))))
       \<and> (error_field v \<noteq> None \<longrightarrow> (\<exists>t. fst (read h path suspend s) = Inl t))"
  using assms
  by (auto simp: read_def read_value_def Let_def valueCache_load split: option.splits)

theorem read_error_payload_witness:
  "queryCache (after_message (JObj [(''error'', JStr ''boom'')])) ''/a''
     = Some \<lparr>deferred = 0, lazilyRefetch = False, subscribe = 0\<rparr>
   \<and> valueCache (after_message (JObj [(''error'', JStr ''boom'')])) ''/a''
     = Some (JObj [(''error'', JStr ''boom'')])
   \<and> truthy (JObj [(''error'', JStr ''boom'')])
   \<and> fst (read host0 ''/a'' True (after_message (JObj [(''error'', JStr ''boom'')])))
     = Inl (ReadError ''Error reading \"/a\" - [boom]'')
   \<and> valueCache (after_message (JObj [(''users'', JNum 3)])) ''/a''
     = Some (JObj [(''users'', JNum 3)])
   \<and> fst (read host0 ''/a'' True (after_message (JObj [(''users'', JNum 3)])))
     = Inr (JObj [(''users'', JNum 3)])"
proof -
  let ?e = "JObj [(''error'', JStr ''boom'')]" and ?v = "JObj [(''users'', JNum 3)]"
  have t: "truthy ?e" "truthy ?v"
    by simp_all
  have d: "decodeURIComponent host0 ''/a'' = Some ''/a''"
    "toString host0 (JStr ''boom'') = Some ''boom''"
    by (simp_all add: host0_def)
  show ?thesis
    using read_error_payload [OF after_message_caches(1) after_message_caches(2) t(1), of host0 True]
      read_error_payload [OF after_message_caches(1) after_message_caches(2) t(2), of host0 True]
      after_message_caches [of ?e] after_message_caches [of ?v] d
    by simp
qed

text \<open>
  C9. When the query entry of a path exists and the cached value is falsy (null, 0, the
  empty string or false), \<^verbatim>\<open>read()\<close> does what it does with no cached value: with
  \<open>suspend = true\<close> it throws the promise of the entry it fetched, with \<open>suspend = false\<close>
  it returns null; its result is the one it gives once the value is removed.
\<close>

theorem read_falsy_value:
  assumes "queryCache s path = Some query" and "valueCache s path = Some v" and "\<not> truthy v"
  shows "fst (read h path True s) = Inl (Suspend (deferred query))
       \<and> fst (read h path False s) = Inr JNull
       \<and> fst (read h path suspend s)
           = fst (read h path suspend (s\<lparr>valueCache := (valueCache s)(path := None)\<rparr>))"
  using assms
  by (simp add: read_def read_value_def read_empty_def Let_def valueCache_load)

theorem read_falsy_value_witness:
  "queryCache (after_message (JNum 0)) ''/a''
     = Some \<lparr>deferred = 0, lazilyRefetch = False, subscribe = 0\<rparr>
   \<and> valueCache (after_message (JNum 0)) ''/a'' = Some (JNum 0)
   \<and> \<not> truthy (JNum 0)
   \<and> fst (read host0 ''/a'' True (after_message (JNum 0))) = Inl (Suspend 0)
   \<and> fst (read host0 ''/a'' False (after_message (JNum 0))) = Inr JNull"
proof -
  have f: "\<not> truthy (JNum 0)"
    by simp
  show ?thesis
    using read_falsy_value [OF after_message_caches(1) after_message_caches(2) f, of host0 True]
      after_message_caches [of "JNum 0"]
    by simp
qed

lemma cleared_exec: "exec host0 [Load ''/a'', ClearQuery ''/a''] init = Some cleared"
  by (simp add: cleared_def)

lemma cleared_caches:
  "queryCache cleared ''/a'' = Some \<lparr>deferred = 0, lazilyRefetch = True, subscribe = 0\<rparr>"
  "valueCache cleared ''/a'' = None"
  "length (cycles cleared) = 1"
  by (simp_all add: cleared_def op_defs)

lemma message_after_clear_exec:
  "exec host0 [Load ''/a'', SockOpen 0, ClearQuery ''/a'', SockMessage 0 (JNum 1)] init
     = Some message_after_clear"
  by (simp add: message_after_clear_def op_defs)

lemma message_after_clear_caches:
  "queryCache message_after_clear ''/a''
     = Some \<lparr>deferred = 0, lazilyRefetch = True, subscribe = 0\<rparr>"
  "valueCache message_after_clear ''/a'' = Some (JNum 1)"
  "length (cycles message_after_clear) = 1"
  by (simp_all add: message_after_clear_def op_defs)

text \<open>
  C10. When \<^verbatim>\<open>read()\<close> finds a query entry flagged \<open>lazilyRefetch\<close>, it runs \<^verbatim>\<open>load()\<close>,
  whatever \<open>suspend\<close> is and whatever is cached: the state it leaves is the one \<^verbatim>\<open>load()\<close>
  gives. That state has a new entry whose pending-result handle is the one of a new load
  cycle, still pending. With no cached value (or a falsy one) and \<open>suspend = true\<close>,
  \<^verbatim>\<open>read()\<close> then throws the promise of the entry it fetched before the reload, a handle
  of an earlier load cycle, and not the new one.
\<close>

theorem read_stale_throws_old_promise:
  assumes "exec h es init = Some s" and "queryCache s path = Some query"
    and "lazilyRefetch query"
  shows "snd (read h path suspend s) = load (h_opts h) path s
       \<and> queryCache (load (h_opts h) path s) path
           = Some \<lparr>deferred = length (cycles s), lazilyRefetch = False,
                    subscribe = length (cycles s)\<rparr>
       \<and> length (cycles (load (h_opts h) path s)) = Suc (length (cycles s))
       \<and> length (sockets (load (h_opts h) path s)) = Suc (length (sockets s))
       \<and> c_deferred (cycles (load (h_opts h) path s) ! length (cycles s)) = Pending
       \<and> deferred query < length (cycles s)
       \<and> ((\<forall>v. valueCache s path = Some v \<longrightarrow> \<not> truthy v) \<longrightarrow>
            fst (read h path True s) = Inl (Suspend (deferred query)))"
proof -
  from assms(1) have "well_formed s"
    by (rule well_formed_exec)
  with assms(2) have d: "deferred query < length (cycles s)"
    by (auto simp: well_formed_def)
  have r: "snd (read h path suspend s) = load (h_opts h) path s"
    using assms(2,3) by (simp add: read_def Let_def)
  have l: "queryCache (load (h_opts h) path s) path
           = Some \<lparr>deferred = length (cycles s), lazilyRefetch = False,
                    subscribe = length (cycles s)\<rparr>"
    "length (cycles (load (h_opts h) path s)) = Suc (length (cycles s))"
    "length (sockets (load (h_opts h) path s)) = Suc (length (sockets s))"
    "c_deferred (cycles (load (h_opts h) path s) ! length (cycles s)) = Pending"
    using assms(2,3) by (simp_all add: load_def load_fresh_def recreate_def Let_def)
  have t: "(\<forall>v. valueCache s path = Some v \<longrightarrow> \<not> truthy v) \<longrightarrow>
            fst (read h path True s) = Inl (Suspend (deferred query))"
    using assms(2,3)
    by (auto simp: read_def read_value_def read_empty_def Let_def valueCache_load
             split: option.splits)
  from r l d t show ?thesis by blast
qed

theorem read_stale_throws_old_promise_witness:
  "exec host0 [Load ''/a'', ClearQuery ''/a''] init = Some cleared
   \<and> queryCache cleared ''/a'' = Some \<lparr>deferred = 0, lazilyRefetch = True, subscribe = 0\<rparr>
   \<and> lazilyRefetch \<lparr>deferred = 0, lazilyRefetch = True, subscribe = 0\<rparr>
   \<and> valueCache cleared ''/a'' = None
   \<and> fst (read host0 ''/a'' True cleared) = Inl (Suspend 0)
   \<and> queryCache (snd (read host0 ''/a'' True cleared)) ''/a''
       = Some \<lparr>deferred = 1, lazilyRefetch = False, subscribe = 1\<rparr>
   \<and> exec host0 [Load ''/a'', SockOpen 0, ClearQuery ''/a'', SockMessage 0 (JNum 1)] init
       = Some message_after_clear
   \<and> valueCache message_after_clear ''/a'' = Some (JNum 1)
   \<and> queryCache (snd (read host0 ''/a'' False message_after_clear)) ''/a''
       = Some \<lparr>deferred = 1, lazilyRefetch = False, subscribe = 1\<rparr>
   \<and> length (sockets (snd (read host0 ''/a'' False message_after_clear)))
       = Suc (length (sockets message_after_clear))"
proof -
  have t: "lazilyRefetch \<lparr>deferred = 0, lazilyRefetch = True, subscribe = 0\<rparr>"
    by simp
  show ?thesis
    using read_stale_throws_old_promise [OF cleared_exec cleared_caches(1) t, of True]
      read_stale_throws_old_promise
        [OF message_after_clear_exec message_after_clear_caches(1) t, of False]
      cleared_exec cleared_caches message_after_clear_exec message_after_clear_caches
    by simp
qed

section \<open>Closure of a socket\<close>



text \<open>
  C5, as the spec has it, fails: a closure with code 1006 never reaches \<^verbatim>\<open>onClose\<close>. After
  a load, one message and a closure with code 1006 the value is still cached and the entry
  is not flagged.
\<close>

theorem abnormal_closure_keeps_caches:
  "exec host0 [Load ''/a'', SockOpen 0, SockMessage 0 (JNum 3), SockClose 0 1006] init
     = Some closed_1006
   \<and> valueCache closed_1006 ''/a'' = Some (JNum 3)
   \<and> queryCache closed_1006 ''/a'' = Some \<lparr>deferred = 0, lazilyRefetch = False, subscribe = 0\<rparr>"
  by (simp add: closed_1006_def after_message_def op_defs)

text \<open>
  C5, amended. In a reachable state, when a socket closes with a code other than 1006, the
  value cached for its path is removed and the query entry of the path (there is one) is
  replaced by a copy flagged \<open>lazilyRefetch = true\<close>. When it closes with code 1006 both
  caches stay as they are and one reconnection timer is set.
\<close>

theorem closure_marks_stale_unless_1006:
  assumes "exec h es init = Some s" and "enabled s (SockClose k code)"
  shows "(code \<noteq> 1006 \<longrightarrow>
            valueCache (step h (SockClose k code) s) (sock_path s k) = None
          \<and> (\<exists>query. queryCache s (sock_path s k) = Some query
               \<and> queryCache (step h (SockClose k code) s) (sock_path s k)
                   = Some (query\<lparr>lazilyRefetch := True\<rparr>)))
       \<and> (code = 1006 \<longrightarrow>
            valueCache (step h (SockClose k code) s) = valueCache s
          \<and> queryCache (step h (SockClose k code) s) = queryCache s
          \<and> timers (step h (SockClose k code) s)
              = timers s @ [\<lparr>action = Reconnect k, delay = 1000, pending = True\<rparr>])"
proof -
  from assms(1) have wf: "well_formed s"
    by (rule well_formed_exec)
  from assms(2) have k: "k < length (sockets s)"
    by simp
  with wf have "sock_owner (sockets s ! k) < length (cycles s)"
    by (simp add: well_formed_def)
  with wf obtain query where q: "queryCache s (sock_path s k) = Some query"
    by (auto simp: well_formed_def sock_path_def)
  from k q show ?thesis
    by (simp add: on_close_def onClose_def set_ready_def setTimeout_def sock_path_def Let_def)
qed

theorem closure_marks_stale_unless_1006_witness:
  "exec host0 [Load ''/a'', SockOpen 0, SockMessage 0 (JNum 3)] init = Some (after_message (JNum 3))
   \<and> enabled (after_message (JNum 3)) (SockClose 0 1000)
   \<and> valueCache (step host0 (SockClose 0 1000) (after_message (JNum 3))) ''/a'' = None
   \<and> queryCache (step host0 (SockClose 0 1000) (after_message (JNum 3))) ''/a''
       = Some \<lparr>deferred = 0, lazilyRefetch = True, subscribe = 0\<rparr>"
proof -
  have e: "enabled (after_message (JNum 3)) (SockClose 0 1000)"
    by (simp add: after_message_def op_defs)
  have p: "sock_path (after_message (JNum 3)) 0 = ''/a''"
    by (simp add: sock_path_def after_message_def op_defs)
  show ?thesis
    using closure_marks_stale_unless_1006 [OF after_message_exec e] e p
      after_message_exec [of "JNum 3"] after_message_caches [of "JNum 3"]
    by auto
qed

section \<open>Stale implies cleared\<close>

text \<open>
  C2, as the spec has it, fails: \<^verbatim>\<open>clearQuery\<close> leaves the socket open, and a message that
  arrives on it stores a value under an entry that is flagged \<open>lazilyRefetch\<close>.
\<close>

theorem message_after_clearQuery_stale_with_value:
  "exec host0 [Load ''/a'', SockOpen 0, ClearQuery ''/a'', SockMessage 0 (JNum 1)] init
     = Some message_after_clear
   \<and> queryCache message_after_clear ''/a''
       = Some \<lparr>deferred = 0, lazilyRefetch = True, subscribe = 0\<rparr>
   \<and> valueCache message_after_clear ''/a'' = Some (JNum 1)"
  by (simp add: message_after_clear_def op_defs)

lemma stale_implies_cleared_load:
  "stale_implies_cleared s \<Longrightarrow> stale_implies_cleared (load os path s)"
  unfolding stale_implies_cleared_def
  by (auto simp: load_def load_fresh_def recreate_def Let_def split: option.splits if_splits)

text \<open>
  C2, amended. Every event other than a message preserves "stale implies cleared": the
  calls of \<^verbatim>\<open>load\<close>, \<^verbatim>\<open>read\<close>, \<^verbatim>\<open>subscribe\<close>, the unsubscribe function and
  \<^verbatim>\<open>clearQuery\<close>, the open, error and close events and the timers; \<^verbatim>\<open>clearQuery\<close> and
  \<^verbatim>\<open>onClose\<close> preserve it and leave their path flagged with no value. \<^verbatim>\<open>onMessage\<close>
  preserves it when the entry of its path is not flagged.
\<close>

theorem stale_implies_cleared_preserved:
  assumes "stale_implies_cleared s"
  shows "((\<forall>k parsed. e \<noteq> SockMessage k parsed) \<longrightarrow> stale_implies_cleared (step h e s))
       \<and> ((\<forall>query. queryCache s (sock_path s k) = Some query \<longrightarrow> \<not> lazilyRefetch query) \<longrightarrow>
            stale_implies_cleared (step h (SockMessage k parsed) s))
       \<and> stale_implies_cleared (clearQuery path s)
       \<and> stale_implies_cleared (onClose c s)
       \<and> (\<forall>query. queryCache (clearQuery path s) path = Some query \<longrightarrow>
            lazilyRefetch query \<and> valueCache (clearQuery path s) path = None)"
proof -
  have 1: "(\<forall>k parsed. e \<noteq> SockMessage k parsed) \<longrightarrow> stale_implies_cleared (step h e s)"
  proof (cases e)
    case (Load p)
    with assms show ?thesis by (simp add: stale_implies_cleared_load)
  next
    case (Read p b)
    with assms show ?thesis
      by (simp add: read_def Let_def stale_implies_cleared_load split: option.splits)
  next
    case (Subscribe p l)
    with assms show ?thesis
      by (auto simp: stale_implies_cleared_def wsQuery_subscribe_def cycle_subscribe_def
               split: option.splits)
  next
    case (Unsubscribe c l)
    with assms show ?thesis
      by (auto simp: stale_implies_cleared_def unsubscribe_def clearTimeout_def setTimeout_def
                     Let_def split: option.splits)
  next
    case (ClearQuery p)
    with assms show ?thesis
      by (auto simp: stale_implies_cleared_def clearQuery_def Let_def
               split: option.splits if_splits)
  next
    case (SockOpen k)
    with assms show ?thesis
      by (auto simp: stale_implies_cleared_def on_open_def set_ready_def)
  next
    case (SockMessage k v)
    then show ?thesis by simp
  next
    case (SockError k)
    with assms show ?thesis
      by (auto simp: stale_implies_cleared_def on_error_def onError_def)
  next
    case (SockClose k code)
    with assms show ?thesis
      by (auto simp: stale_implies_cleared_def on_close_def onClose_def set_ready_def
                     setTimeout_def Let_def split: option.splits if_splits)
  next
    case (TimerFire t)
    with assms show ?thesis
      by (auto simp: stale_implies_cleared_def fire_def reconnect_timeout_def
                     cleanup_timeout_def recreate_def ws_close_def Let_def
               split: callback.splits)
  qed
  have 2: "(\<forall>query. queryCache s (sock_path s k) = Some query \<longrightarrow> \<not> lazilyRefetch query) \<longrightarrow>
            stale_implies_cleared (step h (SockMessage k parsed) s)"
    using assms
    by (auto simp: stale_implies_cleared_def on_message_def onMessage_def sock_path_def)
  have 3: "stale_implies_cleared (clearQuery path s)"
    using assms
    by (auto simp: stale_implies_cleared_def clearQuery_def Let_def
             split: option.splits if_splits)
  have 4: "stale_implies_cleared (onClose c s)"
    using assms
    by (auto simp: stale_implies_cleared_def onClose_def Let_def split: option.splits if_splits)
  have 5: "\<forall>query. queryCache (clearQuery path s) path = Some query \<longrightarrow>
            lazilyRefetch query \<and> valueCache (clearQuery path s) path = None"
    by (auto simp: clearQuery_def Let_def split: option.splits)
  from 1 2 3 4 5 show ?thesis by blast
qed

lemma opened_fields:
  "sock_path opened 0 = ''/a''"
  "queryCache opened ''/a'' = Some \<lparr>deferred = 0, lazilyRefetch = False, subscribe = 0\<rparr>"
  by (simp_all add: opened_def sock_path_def op_defs)

lemma opened_stale_implies_cleared: "stale_implies_cleared opened"
  by (simp add: stale_implies_cleared_def opened_def op_defs)

theorem stale_implies_cleared_preserved_witness:
  "stale_implies_cleared opened
   \<and> stale_implies_cleared (step host0 (ClearQuery ''/a'') opened)
   \<and> queryCache opened (sock_path opened 0)
       = Some \<lparr>deferred = 0, lazilyRefetch = False, subscribe = 0\<rparr>
   \<and> stale_implies_cleared (step host0 (SockMessage 0 (JNum 1)) opened)"
  using stale_implies_cleared_preserved
      [OF opened_stale_implies_cleared, of "ClearQuery ''/a''" host0 0 "JNum 1" "''/a''" 0]
    opened_stale_implies_cleared opened_fields
  by simp

section \<open>Subscribers and teardown\<close>







text \<open>What the statement above does not cover: \<^verbatim>\<open>recreate()\<close> does not assign the socket it
  makes to the \<^verbatim>\<open>ws\<close> of the handle. After a reconnection the teardown timer finds the
  first socket closed, and the socket of the reconnection stays open with no subscriber.\<close>

lemma teardown_after_reconnection:
  "exec host0 [Load ''/a'', SockOpen 0, Subscribe ''/a'' 7, SockClose 0 1006, TimerFire 0,
               SockOpen 1, Unsubscribe 0 7, TimerFire 1] init
     = Some torn_down_after_reconnection
   \<and> subscriptions (cycles torn_down_after_reconnection ! 0) = []
   \<and> c_ws (cycles torn_down_after_reconnection ! 0) = 0
   \<and> map sock_state (sockets torn_down_after_reconnection) = [CLOSED, OPEN]"
  by (simp add: torn_down_after_reconnection_def subscribed_def opened_def op_defs)

section \<open>At most one connection per path\<close>

text \<open>
  C1, as the spec has it, fails: \<^verbatim>\<open>clearQuery\<close> flags the entry and leaves the connection
  open, so the next \<^verbatim>\<open>load()\<close> opens a second one. Both sockets are open for the same path,
  and the handles of both load cycles are pending.
\<close>

theorem clearQuery_then_load_two_connections:
  "exec host0 [Load ''/a'', SockOpen 0, ClearQuery ''/a'', Load ''/a'', SockOpen 1] init
     = Some two_connections
   \<and> sockets two_connections =
       [\<lparr>sock_owner = 0, sock_url = ''ws://localhost:3000'', sock_state = OPEN, sent = [''/a'']\<rparr>,
        \<lparr>sock_owner = 1, sock_url = ''ws://localhost:3000'', sock_state = OPEN, sent = [''/a'']\<rparr>]
   \<and> map c_path (cycles two_connections) = [''/a'', ''/a'']
   \<and> map c_deferred (cycles two_connections) = [Pending, Pending]
   \<and> live_socket two_connections ''/a'' 0 \<and> live_socket two_connections ''/a'' 1"
  by (simp add: two_connections_def opened_def live_socket_def sock_path_def op_defs)

text \<open>The invariant: per path, the sockets that are not closed and the pending reconnection
  timers are at most one object together, and none when the path is stale.\<close>

lemma wf_owner:
  assumes "well_formed s" and "k < length (sockets s)"
  shows "sock_owner (sockets s ! k) < length (cycles s)"
  using assms by (simp add: well_formed_def)

lemma wf_reconnect:
  assumes "well_formed s" and "t < length (timers s)" and "action (timers s ! t) = Reconnect k"
  shows "k < length (sockets s)"
  using assms by (simp add: well_formed_def)

lemma wf_pending:
  assumes "well_formed s" and "t < length (timers s)" and "action (timers s ! t) = Reconnect k"
    and "pending (timers s ! t)"
  shows "sock_state (sockets s ! k) = CLOSED"
  using assms by (simp add: well_formed_def)

text \<open>The effect of \<^verbatim>\<open>load\<close> past its early return.\<close>

lemma sock_path_load_fresh:
  assumes "well_formed s" "k < length (sockets s)"
  shows "sock_path (load_fresh os path s) k = sock_path s k"
  using assms wf_owner [OF assms]
  by (simp add: sock_path_def load_fresh_def recreate_def Let_def nth_append)

lemma sock_path_load_fresh_new:
  "sock_path (load_fresh os path s) (length (sockets s)) = path"
  by (simp add: sock_path_def load_fresh_def recreate_def Let_def nth_append)

lemma sockets_load_fresh:
  "length (sockets (load_fresh os path s)) = Suc (length (sockets s))"
  "k < length (sockets s) \<Longrightarrow> sock_state (sockets (load_fresh os path s) ! k) = sock_state (sockets s ! k)"
  "sock_state (sockets (load_fresh os path s) ! length (sockets s)) = CONNECTING"
  "timers (load_fresh os path s) = timers s"
  by (simp_all add: load_fresh_def recreate_def Let_def nth_append)

lemma live_socket_load_fresh:
  assumes "well_formed s"
  shows "live_socket (load_fresh os path s) p k \<longleftrightarrow>
           live_socket s p k \<or> (k = length (sockets s) \<and> p = path)"
proof (cases "k < length (sockets s)")
  case True
  then show ?thesis
    using sock_path_load_fresh [OF assms True] by (simp add: live_socket_def sockets_load_fresh)
next
  case False
  then show ?thesis
    by (auto simp: live_socket_def sockets_load_fresh sock_path_load_fresh_new less_Suc_eq)
qed

lemma live_timer_load_fresh:
  assumes "well_formed s"
  shows "live_timer (load_fresh os path s) p t \<longleftrightarrow> live_timer s p t"
proof (cases "t < length (timers s)")
  case True
  show ?thesis
  proof (cases "action (timers s ! t)")
    case (Reconnect k)
    with assms True have "k < length (sockets s)" by (simp add: wf_reconnect)
    with Reconnect show ?thesis
      using sock_path_load_fresh [OF assms] by (simp add: live_timer_def sockets_load_fresh)
  next
    case (Cleanup c)
    then show ?thesis by (simp add: live_timer_def sockets_load_fresh)
  qed
next
  case False
  then show ?thesis by (simp add: live_timer_def sockets_load_fresh)
qed

lemma stale_load_fresh: "stale (load_fresh os path s) p \<longleftrightarrow> stale s p \<and> p \<noteq> path"
  by (simp add: stale_def load_fresh_def recreate_def Let_def)

text \<open>A change of the query cache alone.\<close>

lemma well_formed_flag:
  "well_formed s \<Longrightarrow> queryCache s path = Some q \<Longrightarrow>
   well_formed (s\<lparr>queryCache := (queryCache s)(path \<mapsto> q\<lparr>lazilyRefetch := b\<rparr>)\<rparr>)"
  by (auto simp: well_formed_def)

lemma sock_path_queryCache_update [simp]: "sock_path (s\<lparr>queryCache := m\<rparr>) = sock_path s"
  by (simp add: sock_path_def fun_eq_iff)

lemma live_queryCache_update [simp]:
  "live_socket (s\<lparr>queryCache := m\<rparr>) = live_socket s"
  "live_timer (s\<lparr>queryCache := m\<rparr>) = live_timer s"
  by (simp_all add: live_socket_def live_timer_def fun_eq_iff)

lemma one_connection_load:
  assumes "well_formed s" and "one_connection s"
  shows "one_connection (load os path s)"
proof (cases "stale s path")
  case False
  then have "load os path s = s"
    by (auto simp: stale_def load_def split: option.splits)
  with assms show ?thesis by simp
next
  case True
  show ?thesis
  proof (cases "queryCache s path")
    case None
    then have l: "load os path s = load_fresh os path s" by (simp add: load_def)
    from True assms(2) have "\<forall>k. \<not> live_socket s path k" "\<forall>t. \<not> live_timer s path t"
      by (auto simp: one_connection_def)
    with assms(2) show ?thesis
      unfolding one_connection_def l
      by (simp add: live_socket_load_fresh [OF assms(1)] live_timer_load_fresh [OF assms(1)] stale_load_fresh)
  next
    case (Some q)
    let ?s1 = "s\<lparr>queryCache := (queryCache s)(path \<mapsto> q\<lparr>lazilyRefetch := False\<rparr>)\<rparr>"
    from Some True have l: "load os path s = load_fresh os path ?s1"
      by (simp add: load_def stale_def)
    have wf1: "well_formed ?s1" using assms(1) Some by (rule well_formed_flag)
    from True assms(2) have n: "\<forall>k. \<not> live_socket s path k" "\<forall>t. \<not> live_timer s path t"
      by (auto simp: one_connection_def)
    have st: "\<And>p. p \<noteq> path \<Longrightarrow> stale ?s1 p = stale s p" by (simp add: stale_def)
    have len: "length (sockets ?s1) = length (sockets s)" by simp
    from assms(2) n show ?thesis
      unfolding one_connection_def l
      apply (simp add: live_socket_load_fresh [OF wf1] live_timer_load_fresh [OF wf1] stale_load_fresh)
      apply (intro allI)
      subgoal for p
        apply (cases "p = path")
         apply (simp)
        apply (simp add: st)
        done
      done
  qed
qed


lemma one_connection_mono:
  assumes "one_connection s"
    and ls: "\<And>p k. live_socket s' p k \<Longrightarrow> live_socket s p k"
    and lt: "\<And>p t. live_timer s' p t \<Longrightarrow> live_timer s p t"
    and st: "\<And>p. stale s' p \<Longrightarrow> stale s p"
  shows "one_connection s'"
  unfolding one_connection_def
proof (intro allI conjI impI)
  fix p k k' assume "live_socket s' p k" "live_socket s' p k'"
  with assms(1) ls show "k = k'" unfolding one_connection_def by blast
next
  fix p t t' assume "live_timer s' p t" "live_timer s' p t'"
  with assms(1) lt show "t = t'" unfolding one_connection_def by blast
next
  fix p k t assume "live_socket s' p k"
  with assms(1) ls lt show "\<not> live_timer s' p t" unfolding one_connection_def by blast
next
  fix p k assume "stale s' p"
  with assms(1) ls st show "\<not> live_socket s' p k" unfolding one_connection_def by blast
next
  fix p t assume "stale s' p"
  with assms(1) lt st show "\<not> live_timer s' p t" unfolding one_connection_def by blast
qed

lemma sock_path_cycle_subscribe [simp]: "sock_path (cycle_subscribe c l s) = sock_path s"
  by (simp add: sock_path_def cycle_subscribe_def c_path_nth_update fun_eq_iff)

lemma one_connection_subscribe:
  assumes "one_connection s"
  shows "one_connection (snd (wsQuery_subscribe path l s))"
proof (cases "queryCache s path")
  case None
  with assms show ?thesis by (simp add: wsQuery_subscribe_def)
next
  case (Some q)
  have "one_connection (cycle_subscribe (subscribe q) l s)"
    using assms
  proof (rule one_connection_mono)
    show "\<And>p k. live_socket (cycle_subscribe (subscribe q) l s) p k \<Longrightarrow> live_socket s p k"
      by (simp add: live_socket_def) (simp add: cycle_subscribe_def)
    show "\<And>p t. live_timer (cycle_subscribe (subscribe q) l s) p t \<Longrightarrow> live_timer s p t"
      by (simp add: live_timer_def) (simp add: cycle_subscribe_def)
    show "\<And>p. stale (cycle_subscribe (subscribe q) l s) p \<Longrightarrow> stale s p"
      by (simp add: stale_def cycle_subscribe_def)
  qed
  with Some show ?thesis by (simp add: wsQuery_subscribe_def)
qed

lemma sock_path_on_message [simp]: "sock_path (on_message k v s) = sock_path s"
  by (simp add: sock_path_def on_message_def onMessage_def c_path_nth_update fun_eq_iff)

lemma one_connection_message:
  assumes "one_connection s"
  shows "one_connection (on_message k v s)"
  using assms
proof (rule one_connection_mono)
  show "\<And>p k'. live_socket (on_message k v s) p k' \<Longrightarrow> live_socket s p k'"
    by (simp add: live_socket_def) (simp add: on_message_def onMessage_def)
  show "\<And>p t. live_timer (on_message k v s) p t \<Longrightarrow> live_timer s p t"
    by (simp add: live_timer_def) (simp add: on_message_def onMessage_def)
  show "\<And>p. stale (on_message k v s) p \<Longrightarrow> stale s p"
    by (simp add: stale_def on_message_def onMessage_def)
qed

lemma sock_path_on_error [simp]: "sock_path (on_error k s) = sock_path s"
  by (simp add: sock_path_def on_error_def onError_def c_path_nth_update fun_eq_iff)

lemma one_connection_error:
  assumes "one_connection s"
  shows "one_connection (on_error k s)"
  using assms
proof (rule one_connection_mono)
  show "\<And>p k'. live_socket (on_error k s) p k' \<Longrightarrow> live_socket s p k'"
    by (simp add: live_socket_def) (simp add: on_error_def onError_def)
  show "\<And>p t. live_timer (on_error k s) p t \<Longrightarrow> live_timer s p t"
    by (simp add: live_timer_def) (simp add: on_error_def onError_def)
  show "\<And>p. stale (on_error k s) p \<Longrightarrow> stale s p"
    by (simp add: stale_def on_error_def onError_def)
qed

lemma sock_path_open [simp]: "sock_path (on_open k (set_ready k r s)) = sock_path s"
  by (simp add: sock_path_def on_open_def set_ready_def sock_owner_nth_update fun_eq_iff)

lemma sock_path_set_ready [simp]: "sock_path (set_ready k r s) = sock_path s"
  by (simp add: sock_path_def set_ready_def sock_owner_nth_update fun_eq_iff)

lemma one_connection_open:
  assumes "one_connection s" and "enabled s (SockOpen k)"
  shows "one_connection (on_open k (set_ready k OPEN s))"
  using assms(1)
proof (rule one_connection_mono)
  show "\<And>p k'. live_socket (on_open k (set_ready k OPEN s)) p k' \<Longrightarrow> live_socket s p k'"
    using assms(2)
    by (simp add: live_socket_def) (auto simp: on_open_def set_ready_def nth_list_update split: if_splits)
  show "\<And>p t. live_timer (on_open k (set_ready k OPEN s)) p t \<Longrightarrow> live_timer s p t"
    by (simp add: live_timer_def) (simp add: on_open_def set_ready_def)
  show "\<And>p. stale (on_open k (set_ready k OPEN s)) p \<Longrightarrow> stale s p"
    by (simp add: stale_def on_open_def set_ready_def)
qed

lemma sock_path_unsubscribe [simp]: "sock_path (unsubscribe c l s) = sock_path s"
  by (simp add: sock_path_def unsubscribe_def clearTimeout_def setTimeout_def Let_def
                c_path_nth_update fun_eq_iff split: option.splits)

lemma timers_clearTimeout:
  "length (timers (clearTimeout tid s)) = length (timers s)"
  "action (timers (clearTimeout tid s) ! t) = action (timers s ! t)"
  "t < length (timers s) \<Longrightarrow> pending (timers (clearTimeout tid s) ! t) \<Longrightarrow> pending (timers s ! t)"
  by (auto simp: clearTimeout_def nth_list_update action_nth_update split: option.splits if_splits)

lemma timers_unsubscribe:
  "timers (unsubscribe c l s) =
     timers (clearTimeout (cleanupTimeoutId (cycles s ! c)) s) @
       [\<lparr>action = Cleanup c, delay = 9999, pending = True\<rparr>]"
  "sockets (unsubscribe c l s) = sockets s"
  "queryCache (unsubscribe c l s) = queryCache s"
  by (simp_all add: unsubscribe_def setTimeout_def clearTimeout_def Let_def split: option.splits)

lemma one_connection_unsubscribe:
  assumes "one_connection s"
  shows "one_connection (unsubscribe c l s)"
  using assms
proof (rule one_connection_mono)
  show "\<And>p k'. live_socket (unsubscribe c l s) p k' \<Longrightarrow> live_socket s p k'"
    by (simp add: live_socket_def timers_unsubscribe)
  show "\<And>p t. live_timer (unsubscribe c l s) p t \<Longrightarrow> live_timer s p t"
    by (auto simp: live_timer_def timers_unsubscribe timers_clearTimeout nth_append less_Suc_eq
             split: if_splits)
  show "\<And>p. stale (unsubscribe c l s) p \<Longrightarrow> stale s p"
    by (simp add: stale_def timers_unsubscribe)
qed


lemma sock_path_ws_close [simp]: "sock_path (ws_close k s) = sock_path s"
  by (simp add: sock_path_def ws_close_def sock_owner_nth_update fun_eq_iff)

lemma sock_path_timers_update [simp]: "sock_path (s\<lparr>timers := ts\<rparr>) = sock_path s"
  by (simp add: sock_path_def fun_eq_iff)

lemma live_socket_timers_update [simp]: "live_socket (s\<lparr>timers := ts\<rparr>) = live_socket s"
  by (simp add: live_socket_def fun_eq_iff)

lemma stale_timers_update [simp]: "stale (s\<lparr>timers := ts\<rparr>) = stale s"
  by (simp add: stale_def fun_eq_iff)

lemma live_socket_ws_close: "live_socket (ws_close k s) p k' \<Longrightarrow> live_socket s p k'"
  by (simp add: live_socket_def) (auto simp: ws_close_def nth_list_update split: if_splits)

lemma live_timer_ws_close: "live_timer (ws_close k s) p t = live_timer s p t"
  by (simp add: live_timer_def) (simp add: ws_close_def)

lemma stale_ws_close: "stale (ws_close k s) p = stale s p"
  by (simp add: stale_def ws_close_def)

lemma live_timer_expire:
  "live_timer (s\<lparr>timers := (timers s)[t := (timers s ! t)\<lparr>pending := False\<rparr>]\<rparr>) p t' \<longleftrightarrow>
     live_timer s p t' \<and> t' \<noteq> t"
  by (cases "t < length (timers s)")
     (auto simp: live_timer_def nth_list_update list_update_beyond not_less)

lemma one_connection_cleanup:
  assumes "one_connection s" and "action (timers s ! t) = Cleanup c"
  shows "one_connection (fire t s)"
  using assms(1)
proof (rule one_connection_mono)
  let ?s1 = "s\<lparr>timers := (timers s)[t := (timers s ! t)\<lparr>pending := False\<rparr>]\<rparr>"
  have f: "fire t s = ?s1 \<or> fire t s = ws_close (c_ws (cycles s ! c)) ?s1"
    using assms(2) by (simp add: fire_def cleanup_timeout_def Let_def)
  show "\<And>p k. live_socket (fire t s) p k \<Longrightarrow> live_socket s p k"
    using f live_socket_ws_close [of "c_ws (cycles s ! c)" ?s1] by auto
  show "\<And>p t'. live_timer (fire t s) p t' \<Longrightarrow> live_timer s p t'"
    using f by (auto simp: live_timer_ws_close live_timer_expire)
  show "\<And>p. stale (fire t s) p \<Longrightarrow> stale s p"
    using f by (auto simp: stale_ws_close)
qed

lemma one_connection_reconnect:
  assumes wf: "well_formed s" and inv: "one_connection s"
    and en: "enabled s (TimerFire t)" and act: "action (timers s ! t) = Reconnect k"
  shows "one_connection (fire t s)"
proof -
  let ?s1 = "s\<lparr>timers := (timers s)[t := (timers s ! t)\<lparr>pending := False\<rparr>]\<rparr>"
  let ?o = "sock_owner (sockets s ! k)"
  from en have t: "t < length (timers s)" "pending (timers s ! t)" by simp_all
  from wf t act have k: "k < length (sockets s)" "sock_state (sockets s ! k) = CLOSED"
    by (auto simp: wf_reconnect wf_pending)
  from wf k have o: "?o < length (cycles s)" by (simp add: wf_owner)
  have f: "fire t s = recreate ?o ?s1"
    using act k by (simp add: fire_def reconnect_timeout_def)
  have sp: "\<And>k'. k' < length (sockets s) \<Longrightarrow> sock_path (fire t s) k' = sock_path s k'"
    by (simp add: f sock_path_def recreate_def nth_append)
  have spn: "sock_path (fire t s) (length (sockets s)) = sock_path s k"
    by (simp add: f sock_path_def recreate_def nth_append)
  have ls: "\<And>p k'. live_socket (fire t s) p k' \<longleftrightarrow>
              live_socket s p k' \<or> (k' = length (sockets s) \<and> p = sock_path s k)"
  proof -
    fix p k'
    show "live_socket (fire t s) p k' \<longleftrightarrow>
              live_socket s p k' \<or> (k' = length (sockets s) \<and> p = sock_path s k)"
    proof (cases "k' < length (sockets s)")
      case True
      with sp [OF True] show ?thesis
        by (simp add: live_socket_def) (simp add: f recreate_def nth_append)
    next
      case False
      with spn show ?thesis
        by (auto simp: live_socket_def f recreate_def nth_append less_Suc_eq)
    qed
  qed
  have lt: "\<And>p t'. live_timer (fire t s) p t' \<longleftrightarrow> live_timer s p t' \<and> t' \<noteq> t"
  proof -
    fix p t'
    show "live_timer (fire t s) p t' \<longleftrightarrow> live_timer s p t' \<and> t' \<noteq> t"
    proof (cases "t' < length (timers s) \<and> t' \<noteq> t")
      case True
      then have "\<And>k'. action (timers s ! t') = Reconnect k' \<Longrightarrow> sock_path (fire t s) k' = sock_path s k'"
        using wf_reconnect [OF wf] sp by blast
      with True show ?thesis
        by (simp add: live_timer_def) (auto simp: f recreate_def nth_list_update)
    next
      case False
      then show ?thesis
        by (auto simp: live_timer_def f recreate_def nth_list_update)
    qed
  qed
  have st: "\<And>p. stale (fire t s) p = stale s p"
    by (simp add: stale_def f recreate_def)
  have d: "live_timer s (sock_path s k) t"
    using t act by (simp add: live_timer_def)
  have nols: "\<And>k'. \<not> live_socket s (sock_path s k) k'"
    and uniq: "\<And>t'. live_timer s (sock_path s k) t' \<Longrightarrow> t' = t"
    and nst: "\<not> stale s (sock_path s k)"
    using inv d unfolding one_connection_def by blast+
  show ?thesis
    unfolding one_connection_def ls lt st
  proof (intro allI conjI impI)
    fix p ka k'
    assume "live_socket s p ka \<or> ka = length (sockets s) \<and> p = sock_path s k"
      and "live_socket s p k' \<or> k' = length (sockets s) \<and> p = sock_path s k"
    with inv nols show "ka = k'" unfolding one_connection_def by blast
  next
    fix p ta t'
    assume "live_timer s p ta \<and> ta \<noteq> t" and "live_timer s p t' \<and> t' \<noteq> t"
    with inv show "ta = t'" unfolding one_connection_def by blast
  next
    fix p ka ta
    assume "live_socket s p ka \<or> ka = length (sockets s) \<and> p = sock_path s k"
    with inv uniq show "\<not> (live_timer s p ta \<and> ta \<noteq> t)" unfolding one_connection_def by blast
  next
    fix p ka
    assume "stale s p"
    with inv nst show "\<not> (live_socket s p ka \<or> ka = length (sockets s) \<and> p = sock_path s k)"
      unfolding one_connection_def by blast
  next
    fix p ta
    assume "stale s p"
    with inv show "\<not> (live_timer s p ta \<and> ta \<noteq> t)" unfolding one_connection_def by blast
  qed
qed

lemma set_ready_fields:
  "timers (set_ready k r s) = timers s"
  "queryCache (set_ready k r s) = queryCache s"
  "cycles (set_ready k r s) = cycles s"
  by (simp_all add: set_ready_def)

lemma setTimeout_fields:
  "timers (setTimeout cb ms s) = timers s @ [\<lparr>action = cb, delay = ms, pending = True\<rparr>]"
  "sockets (setTimeout cb ms s) = sockets s"
  "queryCache (setTimeout cb ms s) = queryCache s"
  "sock_path (setTimeout cb ms s) = sock_path s"
  by (simp_all add: setTimeout_def)

lemma one_connection_close:
  assumes wf: "well_formed s" and inv: "one_connection s" and en: "enabled s (SockClose k code)"
  shows "one_connection (on_close k code (set_ready k CLOSED s))"
proof -
  let ?s1 = "set_ready k CLOSED s"
  let ?p0 = "sock_path s k"
  from en have k: "k < length (sockets s)" "sock_state (sockets s ! k) \<noteq> CLOSED" by simp_all
  have ls1: "\<And>p k'. live_socket ?s1 p k' \<longleftrightarrow> live_socket s p k' \<and> k' \<noteq> k"
    using k by (simp add: live_socket_def) (auto simp: set_ready_def nth_list_update)
  have lt1: "\<And>p t. live_timer ?s1 p t \<longleftrightarrow> live_timer s p t"
    by (simp add: live_timer_def) (simp add: set_ready_def)
  have st1: "\<And>p. stale ?s1 p = stale s p"
    by (simp add: stale_def set_ready_def)
  have d: "live_socket s ?p0 k"
    using k by (simp add: live_socket_def)
  have nolt: "\<And>t. \<not> live_timer s ?p0 t"
    and uniq: "\<And>k'. live_socket s ?p0 k' \<Longrightarrow> k' = k"
    using inv d unfolding one_connection_def by blast+
  show ?thesis
  proof (cases "code = 1006")
    case True
    let ?s2 = "on_close k code ?s1"
    have s2: "?s2 = setTimeout (Reconnect k) 1000 ?s1"
      using True by (simp add: on_close_def)
    have ls: "\<And>p k'. live_socket ?s2 p k' \<longleftrightarrow> live_socket s p k' \<and> k' \<noteq> k"
      by (simp add: s2 setTimeout_def ls1)
    have lt: "\<And>p t. live_timer ?s2 p t \<longleftrightarrow> live_timer s p t \<or> (t = length (timers s) \<and> p = ?p0)"
      unfolding s2
      by (auto simp: live_timer_def setTimeout_fields set_ready_fields nth_append less_Suc_eq)
    have st: "\<And>p. stale ?s2 p = stale s p"
      by (simp add: s2 setTimeout_def st1)
    show ?thesis
      unfolding one_connection_def ls lt st
    proof (intro allI conjI impI)
      fix p ka k'
      assume "live_socket s p ka \<and> ka \<noteq> k" and "live_socket s p k' \<and> k' \<noteq> k"
      with inv show "ka = k'" unfolding one_connection_def by blast
    next
      fix p ta t'
      assume "live_timer s p ta \<or> ta = length (timers s) \<and> p = ?p0"
        and "live_timer s p t' \<or> t' = length (timers s) \<and> p = ?p0"
      with inv nolt show "ta = t'" unfolding one_connection_def by blast
    next
      fix p ka ta
      assume "live_socket s p ka \<and> ka \<noteq> k"
      with inv uniq show "\<not> (live_timer s p ta \<or> ta = length (timers s) \<and> p = ?p0)"
        unfolding one_connection_def by blast
    next
      fix p ka
      assume "stale s p"
      with inv show "\<not> (live_socket s p ka \<and> ka \<noteq> k)" unfolding one_connection_def by blast
    next
      fix p ta
      assume "stale s p"
      with inv d show "\<not> (live_timer s p ta \<or> ta = length (timers s) \<and> p = ?p0)"
        unfolding one_connection_def by blast
    qed
  next
    case False
    let ?s2 = "on_close k code ?s1"
    have s2: "?s2 = onClose (sock_owner (sockets s ! k)) ?s1"
      using False k by (simp add: on_close_def set_ready_def)
    have sp: "sock_path ?s2 = sock_path s"
      unfolding s2
      by (simp add: sock_path_def onClose_def set_ready_def Let_def sock_owner_nth_update fun_eq_iff
               split: option.splits)
    have ls: "\<And>p k'. live_socket ?s2 p k' \<longleftrightarrow> live_socket s p k' \<and> k' \<noteq> k"
      using k unfolding live_socket_def sp unfolding s2
      by (auto simp: onClose_def set_ready_def Let_def nth_list_update split: option.splits)
    have lt: "\<And>p t. live_timer ?s2 p t \<longleftrightarrow> live_timer s p t"
      unfolding live_timer_def sp unfolding s2
      by (auto simp: onClose_def set_ready_def Let_def split: option.splits)
    have st: "\<And>p. stale ?s2 p \<longleftrightarrow> stale s p \<or> p = ?p0"
      unfolding s2 using k
      by (auto simp: stale_def onClose_def set_ready_def sock_path_def Let_def split: option.splits)
    show ?thesis
      unfolding one_connection_def ls lt st
    proof (intro allI conjI impI)
      fix p ka k'
      assume "live_socket s p ka \<and> ka \<noteq> k" and "live_socket s p k' \<and> k' \<noteq> k"
      with inv show "ka = k'" unfolding one_connection_def by blast
    next
      fix p ta t'
      assume "live_timer s p ta" and "live_timer s p t'"
      with inv show "ta = t'" unfolding one_connection_def by blast
    next
      fix p ka ta
      assume "live_socket s p ka \<and> ka \<noteq> k"
      with inv show "\<not> live_timer s p ta" unfolding one_connection_def by blast
    next
      fix p ka
      assume "stale s p \<or> p = ?p0"
      with inv uniq show "\<not> (live_socket s p ka \<and> ka \<noteq> k)" unfolding one_connection_def by blast
    next
      fix p ta
      assume "stale s p \<or> p = ?p0"
      with inv nolt show "\<not> live_timer s p ta" unfolding one_connection_def by blast
    qed
  qed
qed


lemma one_connection_init: "one_connection init"
  by (simp add: one_connection_def live_socket_def live_timer_def init_def)

lemma one_connection_step:
  assumes "well_formed s" and "one_connection s" and "enabled s e" and "\<forall>p. e \<noteq> ClearQuery p"
  shows "one_connection (step h e s)"
proof (cases e)
  case (Load p)
  with assms show ?thesis by (simp add: one_connection_load)
next
  case (Read p b)
  with assms show ?thesis
    by (simp add: read_def Let_def one_connection_load split: option.splits)
next
  case (Subscribe p l)
  with assms show ?thesis by (simp add: one_connection_subscribe)
next
  case (Unsubscribe c l)
  with assms show ?thesis by (simp add: one_connection_unsubscribe)
next
  case (ClearQuery p)
  with assms show ?thesis by simp
next
  case (SockOpen k)
  with assms show ?thesis using one_connection_open [of s k] by simp
next
  case (SockMessage k v)
  with assms show ?thesis by (simp add: one_connection_message)
next
  case (SockError k)
  with assms show ?thesis by (simp add: one_connection_error)
next
  case (SockClose k code)
  with assms show ?thesis using one_connection_close [of s k code] by simp
next
  case (TimerFire t)
  show ?thesis
  proof (cases "action (timers s ! t)")
    case (Reconnect k)
    with assms TimerFire show ?thesis using one_connection_reconnect [of s t k] by simp
  next
    case (Cleanup c)
    with assms TimerFire show ?thesis using one_connection_cleanup [of s t c] by simp
  qed
qed

lemma one_connection_exec:
  "exec h es init = Some s \<Longrightarrow> \<forall>p. ClearQuery p \<notin> set es \<Longrightarrow> one_connection s"
proof (induction es arbitrary: s rule: rev_induct)
  case Nil
  then show ?case by (simp add: one_connection_init)
next
  case (snoc e es)
  then obtain s1 where s1: "exec h es init = Some s1" "enabled s1 e" "s = step h e s1"
    by (auto simp: exec_snoc)
  from snoc.prems(2) have nc: "\<forall>p. ClearQuery p \<notin> set es" "\<forall>p. e \<noteq> ClearQuery p"
    by auto
  from s1(1) have "well_formed s1" by (rule well_formed_exec)
  moreover from snoc.IH [OF s1(1) nc(1)] have "one_connection s1" .
  ultimately show ?case
    using s1(2,3) nc(2) by (simp add: one_connection_step)
qed

lemma load_funpow: "(load os path ^^ Suc n) s = load os path s"
  by (induction n) (simp_all add: load_idem)

lemma load_grows:
  "length (sockets (load os path s)) \<le> Suc (length (sockets s))"
  "length (cycles (load os path s)) \<le> Suc (length (cycles s))"
  by (simp_all add: load_def load_fresh_def recreate_def Let_def split: option.splits)

text \<open>
  C1, amended. In every state reached from the initial one by calls of \<^verbatim>\<open>load\<close>,
  \<^verbatim>\<open>read\<close>, \<^verbatim>\<open>subscribe\<close> and the unsubscribe functions, socket events (closures with any
  code among them) and timers, but no call of \<^verbatim>\<open>clearQuery\<close>, at most one socket of a
  path is not closed. In such a state any number of calls of \<^verbatim>\<open>load()\<close> in a row does
  what one call does, which creates at most one socket and at most one load cycle, that is
  one pending-result handle.
\<close>

theorem one_connection_without_clearQuery:
  assumes "exec h es init = Some s" and "\<forall>p. ClearQuery p \<notin> set es"
  shows "(\<forall>k k'. live_socket s path k \<longrightarrow> live_socket s path k' \<longrightarrow> k = k')
       \<and> (load os path ^^ Suc n) s = load os path s
       \<and> length (sockets (load os path s)) \<le> Suc (length (sockets s))
       \<and> length (cycles (load os path s)) \<le> Suc (length (cycles s))"
  using one_connection_exec [OF assms] load_funpow [where os = os and path = path and n = n and s = s]
    load_grows [of os path s]
  unfolding one_connection_def by blast

lemma reconnected_exec:
  "exec host0 [Load ''/a'', SockOpen 0, SockMessage 0 (JNum 3), SockClose 0 1006, TimerFire 0] init
     = Some reconnected"
  by (simp add: reconnected_def closed_1006_def after_message_def op_defs)

lemma reconnected_live: "live_socket reconnected ''/a'' 1"
  by (simp add: live_socket_def sock_path_def reconnected_def closed_1006_def after_message_def op_defs)

theorem one_connection_without_clearQuery_witness:
  "exec host0 [Load ''/a'', SockOpen 0, SockMessage 0 (JNum 3), SockClose 0 1006, TimerFire 0] init
     = Some reconnected
   \<and> (\<forall>p. ClearQuery p \<notin> set [Load ''/a'', SockOpen 0, SockMessage 0 (JNum 3), SockClose 0 1006, TimerFire 0])
   \<and> live_socket reconnected ''/a'' 1
   \<and> \<not> live_socket reconnected ''/a'' 0
   \<and> (load (h_opts host0) ''/a'' ^^ 3) reconnected = load (h_opts host0) ''/a'' reconnected"
proof -
  have nc: "\<forall>p. ClearQuery p \<notin> set [Load ''/a'', SockOpen 0, SockMessage 0 (JNum 3), SockClose 0 1006, TimerFire 0]"
    by simp
  show ?thesis
    using one_connection_without_clearQuery
        [OF reconnected_exec nc, where path = "''/a''" and os = "h_opts host0" and n = 2]
      reconnected_exec reconnected_live nc
    by (auto simp: numeral_3_eq_3)
qed

section \<open>Reconnection after an abnormal closure\<close>

lemma reloaded_before_retry_exec:
  "exec host0 [Load ''/a'', SockOpen 0, SockClose 0 1006, ClearQuery ''/a'', Load ''/a'',
               SockOpen 1] init
     = Some reloaded_before_retry"
  by (simp add: reloaded_before_retry_def opened_def op_defs)




end
